theory Spec2Isabelle
  imports Main
begin

section \<open>Data model\<close>

text \<open>
  The follow controller (\<^verbatim>\<open>src/unnamed/part_002\<close>) works on User documents that carry
  two arrays of ObjectIds, \<^verbatim>\<open>followers\<close> and \<^verbatim>\<open>following\<close>. Request parameters
  (\<^verbatim>\<open>req.user.id\<close>, \<^verbatim>\<open>req.params.userId\<close>) are strings. The ObjectId library is not part
  of the repository, so its two conversions are parameters of every operation:
  \<^item> \<open>parse\<close>: the cast of a string to an ObjectId; \<open>None\<close> where
    \<^verbatim>\<open>mongoose.Types.ObjectId.isValid\<close> is false and a query cast raises CastError;
  \<^item> \<open>hex\<close>: \<^verbatim>\<open>id.toString()\<close>.
  The only law of the library the proofs use is \<open>parse (hex i) = Some i\<close>.
\<close>

datatype error = CastError | StoreError | DocumentNotFound | DuplicateKey
  | ValidationError string | HookError string | BcryptArgumentError | TransactionError

record profile =
  imageUrl :: string

text \<open>
  Modelled from the spec: the User schema of the embedded-array variant is not among the
  sources (the User model of class-106 has no follow arrays); section 3 of the
  specification gives it the identity fields, the credential hash, the profile and the two
  collections of user references \<^verbatim>\<open>followers\<close> and \<^verbatim>\<open>following\<close>, which are the fields
  the controller reads, writes and populates.
\<close>

record 'o user =
  username :: string
  email :: string
  password :: string
  profile :: profile
  followers :: "'o list"
  following :: "'o list"

type_synonym 'o store = "'o \<rightharpoonup> 'o user"

text \<open>What \<^verbatim>\<open>populate(path, "username email profile")\<close> puts in place of an id: the
  selected fields and the \<^verbatim>\<open>_id\<close> that an inclusive projection always keeps.\<close>

record 'o summary =
  sum_id :: 'o
  sum_username :: string
  sum_email :: string
  sum_profile :: profile

text \<open>
  A response is \<^verbatim>\<open>res.status(n).json({success, message})\<close>, the listing of
  \<^verbatim>\<open>getFollowers\<close>/\<^verbatim>\<open>getFollowing\<close> (status, success, the populated array, total),
  an error handed to \<^verbatim>\<open>next(error)\<close>, or an exception that escapes the controller
  (raised before the \<^verbatim>\<open>try\<close> block or inside the \<^verbatim>\<open>catch\<close> block).
\<close>

datatype 'o response =
    Json nat bool string
  | Listing nat bool "'o summary list" nat
  | Next error
  | Unhandled error

text \<open>
  The HTTP status of a response. The global error handler of \<^verbatim>\<open>App.js\<close> answers an
  error handed to \<^verbatim>\<open>next\<close> with \<^verbatim>\<open>err.status || 500\<close>, and the errors raised here
  carry no status; for an exception that escapes it the controller sends nothing.
\<close>

fun status :: "'o response \<Rightarrow> nat option" where
  "status (Json n _ _) = Some n"
| "status (Listing n _ _ _) = Some n"
| "status (Next _) = Some 500"
| "status (Unhandled _) = None"

text \<open>
  Every awaited store call may reject. A \<open>fault\<close> names the call of one request that
  does; \<open>NoFault\<close> is the run in which the store answers every call.
\<close>

datatype fault = NoFault | AtStartSession | AtFindMe | AtFindTarget
  | AtSaveMe | AtSaveTarget | AtCommit

datatype event = StartSession | StartTransaction | Write
  | CommitTransaction | AbortTransaction | EndSession

text \<open>
  A driver session: \<open>visible\<close> is the committed data every reader sees, \<open>txn\<close> the
  working copy of the transaction in progress (\<open>None\<close> when there is none), \<open>trace\<close>
  the session calls that took effect, in their order.
\<close>

record 'o session =
  visible :: "'o store"
  txn :: "'o store option"
  trace :: "event list"

datatype path = FollowersPath | FollowingPath

section \<open>The store and its transactions\<close>

definition isValidObjectId :: "(string \<Rightarrow> 'o option) \<Rightarrow> string \<Rightarrow> bool" where
  "isValidObjectId parse ident = (parse ident \<noteq> None)"

definition startSession :: "'o store \<Rightarrow> 'o session" where
  "startSession db = \<lparr>visible = db, txn = None, trace = [StartSession]\<rparr>"

definition startTransaction :: "'o session \<Rightarrow> 'o session" where
  "startTransaction \<sigma> = \<sigma>\<lparr>txn := Some (visible \<sigma>), trace := trace \<sigma> @ [StartTransaction]\<rparr>"

text \<open>What a query bound to the session reads: the working copy inside a transaction.\<close>

definition view :: "'o session \<Rightarrow> 'o store" where
  "view \<sigma> = (case txn \<sigma> of None \<Rightarrow> visible \<sigma> | Some w \<Rightarrow> w)"

text \<open>\<^verbatim>\<open>User.findById(id)\<close>: the cast of the id comes first, then the query; the
  document is returned with its \<^verbatim>\<open>_id\<close>.\<close>

definition findById ::
  "(string \<Rightarrow> 'o option) \<Rightarrow> bool \<Rightarrow> 'o store \<Rightarrow> string \<Rightarrow> error + ('o \<times> 'o user) option" where
  "findById parse fails db ident =
     (case parse ident of
        None \<Rightarrow> Inl CastError
      | Some i \<Rightarrow> if fails then Inl StoreError else Inr (map_option (Pair i) (db i)))"

text \<open>\<^verbatim>\<open>doc.save({session})\<close> sends the modified path of the document only.\<close>

definition set_path :: "path \<Rightarrow> 'o user \<Rightarrow> 'o user \<Rightarrow> 'o user" where
  "set_path p doc u =
     (case p of
        FollowersPath \<Rightarrow> u\<lparr>followers := followers doc\<rparr>
      | FollowingPath \<Rightarrow> u\<lparr>following := following doc\<rparr>)"

definition apply_write :: "('o store \<Rightarrow> 'o store) \<Rightarrow> 'o session \<Rightarrow> 'o session" where
  "apply_write f \<sigma> =
     (case txn \<sigma> of
        None \<Rightarrow> \<sigma>\<lparr>visible := f (visible \<sigma>), trace := trace \<sigma> @ [Write]\<rparr>
      | Some w \<Rightarrow> \<sigma>\<lparr>txn := Some (f w), trace := trace \<sigma> @ [Write]\<rparr>)"

definition save :: "bool \<Rightarrow> 'o session \<Rightarrow> 'o \<Rightarrow> 'o user \<Rightarrow> path \<Rightarrow> error + 'o session" where
  "save fails \<sigma> i doc p =
     (if fails then Inl StoreError
      else case view \<sigma> i of
        None \<Rightarrow> Inl DocumentNotFound
      | Some u \<Rightarrow> Inr (apply_write (\<lambda>w. w(i \<mapsto> set_path p doc u)) \<sigma>))"

definition commitTransaction :: "bool \<Rightarrow> 'o session \<Rightarrow> error + 'o session" where
  "commitTransaction fails \<sigma> =
     (if fails then Inl StoreError
      else Inr (\<sigma>\<lparr>visible := view \<sigma>, txn := None, trace := trace \<sigma> @ [CommitTransaction]\<rparr>))"

definition abortTransaction :: "'o session \<Rightarrow> 'o session" where
  "abortTransaction \<sigma> = \<sigma>\<lparr>txn := None, trace := trace \<sigma> @ [AbortTransaction]\<rparr>"

text \<open>Ending a session drops a transaction that is still open.\<close>

definition endSession :: "'o session \<Rightarrow> 'o session" where
  "endSession \<sigma> = \<sigma>\<lparr>txn := None, trace := trace \<sigma> @ [EndSession]\<rparr>"

section \<open>The follow controller\<close>

text \<open>The \<^verbatim>\<open>catch\<close> block of both mutations: abort, end the session, \<^verbatim>\<open>next(error)\<close>.\<close>

definition catch :: "'o session \<Rightarrow> error \<Rightarrow> 'o response \<times> 'o session" where
  "catch \<sigma> e = (Next e, endSession (abortTransaction \<sigma>))"

text \<open>
  The same block entered from a rejected \<^verbatim>\<open>commitTransaction\<close>: the driver refuses
  \<^verbatim>\<open>abortTransaction\<close> once the commit has been called, so the block throws at its first
  statement; the session is not ended, \<^verbatim>\<open>next\<close> is not called and nothing is answered.
\<close>

definition catchCommit :: "'o session \<Rightarrow> error \<Rightarrow> 'o response \<times> 'o session" where
  "catchCommit \<sigma> e = (Unhandled TransactionError, \<sigma>)"

text \<open>\<^verbatim>\<open>array.includes(str)\<close> on an array of ObjectIds compares the string with each
  element loosely, that is with the element's string.\<close>

definition array_includes :: "('o \<Rightarrow> string) \<Rightarrow> 'o list \<Rightarrow> string \<Rightarrow> bool" where
  "array_includes hex xs ident = (ident \<in> set (map hex xs))"

text \<open>
  \<^verbatim>\<open>followUser\<close>. The ids pushed are the casts of \<^verbatim>\<open>targetUserId\<close> and \<^verbatim>\<open>myId\<close>, which
  are the \<^verbatim>\<open>_id\<close>s of the two documents found. The result is the response and the session
  as the request leaves it; \<open>visible\<close> of it is the data the next request finds.
\<close>

definition followUser ::
  "(string \<Rightarrow> 'o option) \<Rightarrow> ('o \<Rightarrow> string) \<Rightarrow> fault \<Rightarrow> 'o store \<Rightarrow> string \<Rightarrow> string
     \<Rightarrow> 'o response \<times> 'o session" where
  "followUser parse hex flt db myId targetUserId =
     (if flt = AtStartSession
      then (Unhandled StoreError, \<lparr>visible = db, txn = None, trace = []\<rparr>)
      else
        let \<sigma> = startTransaction (startSession db) in
        if \<not> isValidObjectId parse targetUserId
        then (Json 400 False ''Invalid user ID'', \<sigma>)
        else if myId = targetUserId
        then (Json 400 False ''You cannot follow yourself'', \<sigma>)
        else
          (case findById parse (flt = AtFindMe) (view \<sigma>) myId of
            Inl e \<Rightarrow> catch \<sigma> e
          | Inr me \<Rightarrow>
          (case findById parse (flt = AtFindTarget) (view \<sigma>) targetUserId of
            Inl e \<Rightarrow> catch \<sigma> e
          | Inr targetUser \<Rightarrow>
          (case (me, targetUser) of
            (Some (meId, me), Some (targetId, targetUser)) \<Rightarrow>
              if array_includes hex (following me) targetUserId
              then (Json 409 False ''Already following this user'', \<sigma>)
              else
                let me' = me\<lparr>following := following me @ [targetId]\<rparr>;
                    targetUser' = targetUser\<lparr>followers := followers targetUser @ [meId]\<rparr>
                in
                (case save (flt = AtSaveMe) \<sigma> meId me' FollowingPath of
                   Inl e \<Rightarrow> catch \<sigma> e
                 | Inr \<sigma>1 \<Rightarrow>
                 (case save (flt = AtSaveTarget) \<sigma>1 targetId targetUser' FollowersPath of
                    Inl e \<Rightarrow> catch \<sigma>1 e
                  | Inr \<sigma>2 \<Rightarrow>
                  (case commitTransaction (flt = AtCommit) \<sigma>2 of
                     Inl e \<Rightarrow> catchCommit \<sigma>2 e
                   | Inr \<sigma>3 \<Rightarrow>
                       (Json 200 True ''User followed successfully'', endSession \<sigma>3))))
          | _ \<Rightarrow> (Json 404 False ''User not found'', \<sigma>)))))"

definition unfollowUser ::
  "(string \<Rightarrow> 'o option) \<Rightarrow> ('o \<Rightarrow> string) \<Rightarrow> fault \<Rightarrow> 'o store \<Rightarrow> string \<Rightarrow> string
     \<Rightarrow> 'o response \<times> 'o session" where
  "unfollowUser parse hex flt db myId targetUserId =
     (if flt = AtStartSession
      then (Unhandled StoreError, \<lparr>visible = db, txn = None, trace = []\<rparr>)
      else
        let \<sigma> = startTransaction (startSession db) in
        if \<not> isValidObjectId parse targetUserId
        then (Json 400 False ''Invalid user ID'', \<sigma>)
        else
          (case findById parse (flt = AtFindMe) (view \<sigma>) myId of
            Inl e \<Rightarrow> catch \<sigma> e
          | Inr me \<Rightarrow>
          (case findById parse (flt = AtFindTarget) (view \<sigma>) targetUserId of
            Inl e \<Rightarrow> catch \<sigma> e
          | Inr targetUser \<Rightarrow>
          (case (me, targetUser) of
            (Some (meId, me), Some (targetId, targetUser)) \<Rightarrow>
              let me' = me\<lparr>following := filter (\<lambda>i. hex i \<noteq> targetUserId) (following me)\<rparr>;
                  targetUser' =
                    targetUser\<lparr>followers := filter (\<lambda>i. hex i \<noteq> myId) (followers targetUser)\<rparr>
              in
              (case save (flt = AtSaveMe) \<sigma> meId me' FollowingPath of
                 Inl e \<Rightarrow> catch \<sigma> e
               | Inr \<sigma>1 \<Rightarrow>
               (case save (flt = AtSaveTarget) \<sigma>1 targetId targetUser' FollowersPath of
                  Inl e \<Rightarrow> catch \<sigma>1 e
                | Inr \<sigma>2 \<Rightarrow>
                (case commitTransaction (flt = AtCommit) \<sigma>2 of
                   Inl e \<Rightarrow> catchCommit \<sigma>2 e
                 | Inr \<sigma>3 \<Rightarrow>
                     (Json 200 True ''User unfollowed successfully'', endSession \<sigma>3))))
          | _ \<Rightarrow> (Json 404 False ''User not found'', \<sigma>)))))"

text \<open>
  \<^verbatim>\<open>populate\<close> replaces each id of the array, in storage order, by the selected fields
  of the document it refers to; an id with no document is dropped.
\<close>

definition summarise :: "'o \<Rightarrow> 'o user \<Rightarrow> 'o summary" where
  "summarise i u =
     \<lparr>sum_id = i, sum_username = username u, sum_email = email u, sum_profile = profile u\<rparr>"

definition populate :: "'o store \<Rightarrow> 'o list \<Rightarrow> 'o summary list" where
  "populate db ids = List.map_filter (\<lambda>i. map_option (summarise i) (db i)) ids"

definition getFollowers ::
  "(string \<Rightarrow> 'o option) \<Rightarrow> bool \<Rightarrow> 'o store \<Rightarrow> string \<Rightarrow> 'o response" where
  "getFollowers parse fails db userId =
     (if \<not> isValidObjectId parse userId
      then Json 400 False ''Invalid user ID''
      else
        case findById parse fails db userId of
          Inl e \<Rightarrow> Next e
        | Inr None \<Rightarrow> Json 404 False ''User not found''
        | Inr (Some (i, u)) \<Rightarrow>
            let fs = populate db (followers u) in Listing 200 True fs (length fs))"


section \<open>The Follow model of the normalised variant\<close>

text \<open>
  \<^verbatim>\<open>src/unnamed/part_003\<close>: a Follow document is the pair of references; both paths are
  required, so either may be missing from a document under validation. The collection is
  the list of its documents in insertion order.
\<close>

record 'o follow =
  follow_follower :: "'o option"
  follow_following :: "'o option"

text \<open>The \<^verbatim>\<open>pre("validate")\<close> hook.\<close>

definition preValidate :: "'o follow \<Rightarrow> error + unit" where
  "preValidate d =
     (case (follow_follower d, follow_following d) of
        (Some f, Some g) \<Rightarrow>
          if f = g then Inl (HookError ''User cannot follow themselves'') else Inr ()
      | _ \<Rightarrow> Inr ())"

text \<open>The \<^verbatim>\<open>required\<close> validators of the two paths.\<close>

definition validateRequired :: "'o follow \<Rightarrow> error + unit" where
  "validateRequired d =
     (if follow_follower d = None then Inl (ValidationError ''Follower is required'')
      else if follow_following d = None
      then Inl (ValidationError ''Following user is required'')
      else Inr ())"

text \<open>
  \<^verbatim>\<open>Follow.create(doc)\<close>: the hook, the validators, then the insert, which the compound
  unique index on \<^verbatim>\<open>{follower, following}\<close> refuses when a document with the same pair is
  in the collection. The result is the outcome and the collection afterwards.
\<close>

definition create :: "'o follow list \<Rightarrow> 'o follow \<Rightarrow> (error + 'o follow) \<times> 'o follow list" where
  "create coll d =
     (case preValidate d of
        Inl e \<Rightarrow> (Inl e, coll)
      | Inr _ \<Rightarrow>
        (case validateRequired d of
           Inl e \<Rightarrow> (Inl e, coll)
         | Inr _ \<Rightarrow>
             if \<exists>d' \<in> set coll. follow_follower d' = follow_follower d
                   \<and> follow_following d' = follow_following d
             then (Inl DuplicateKey, coll)
             else (Inr d, coll @ [d])))"

text \<open>The static \<^verbatim>\<open>followSchema.statics.followUser\<close>.\<close>

definition Follow_followUser ::
  "'o follow list \<Rightarrow> 'o option \<Rightarrow> 'o option \<Rightarrow> (error + 'o follow) \<times> 'o follow list" where
  "Follow_followUser coll followerId followingId =
     create coll \<lparr>follow_follower = followerId, follow_following = followingId\<rparr>"

text \<open>The rows of the collection that record the edge from \<open>a\<close> to \<open>b\<close>.\<close>

definition edge_rows :: "'o follow list \<Rightarrow> 'o \<Rightarrow> 'o \<Rightarrow> 'o follow list" where
  "edge_rows coll a b =
     filter (\<lambda>d. follow_follower d = Some a \<and> follow_following d = Some b) coll"

section \<open>Registration and login of class-106\<close>

text \<open>
  \<^verbatim>\<open>src/class-106/src/Models/User.model.js\<close>. The password path is declared
  \<^verbatim>\<open>select: false\<close>: a stored document has it, a document returned by a query that does
  not select it has not, hence the option.
\<close>

definition default_imageUrl :: string where
  "default_imageUrl = ''https://ik.imagekit.io/Bharat/default-user-profile-icon.avif''"

record 'o account =
  acc_id :: 'o
  acc_username :: string
  acc_email :: string
  acc_password :: "string option"
  acc_bio :: string
  acc_profile :: profile

record 'o user_info =
  info_id :: 'o
  info_username :: string
  info_email :: string
  info_bio :: string
  info_profile :: profile

record login_body =
  body_identifier :: "string option"
  body_password :: "string option"

record register_body =
  reg_username :: "string option"
  reg_email :: "string option"
  reg_password :: "string option"
  reg_bio :: "string option"
  reg_imageUrl :: "string option"

text \<open>A response of the auth controllers: status and message, and for a success the
  token set as cookie and the user object of the body.\<close>

datatype 'o auth_response =
    Message nat string
  | Authenticated nat string string "'o user_info"

fun auth_status :: "'o auth_response \<Rightarrow> nat" where
  "auth_status (Message n _) = n"
| "auth_status (Authenticated n _ _ _) = n"

text \<open>A query on the User model leaves out the paths the schema does not select.\<close>

definition deselect :: "'o account \<Rightarrow> 'o account" where
  "deselect u = u\<lparr>acc_password := None\<rparr>"

text \<open>
  The string paths of the schema have setters: \<^verbatim>\<open>username\<close> is trimmed, \<^verbatim>\<open>email\<close> is
  trimmed and lower-cased. Mongoose applies them to the values of a new document and to
  the values of a query filter. \<^verbatim>\<open>String.prototype.trim\<close> and \<^verbatim>\<open>toLowerCase\<close> are
  parameters.
\<close>

record setters =
  toLowerCase :: "string \<Rightarrow> string"
  trim :: "string \<Rightarrow> string"

definition castUsername :: "setters \<Rightarrow> string \<Rightarrow> string" where
  "castUsername st s = trim st s"

definition castEmail :: "setters \<Rightarrow> string \<Rightarrow> string" where
  "castEmail st s = toLowerCase st (trim st s)"

definition findOne :: "bool \<Rightarrow> 'o account list \<Rightarrow> ('o account \<Rightarrow> bool) \<Rightarrow> error + 'o account option" where
  "findOne fails coll cond =
     (if fails then Inl StoreError else Inr (map_option deselect (find cond coll)))"

text \<open>
  \<^verbatim>\<open>bcrypt\<close> is a library: \<open>cmp data hash\<close> stands for the comparison it makes on two
  strings and \<open>bhash salt data\<close> for the hash it computes. \<^verbatim>\<open>bcrypt.compare\<close> rejects when
  either argument is missing.
\<close>

definition bcrypt_compare :: "(string \<Rightarrow> string \<Rightarrow> bool) \<Rightarrow> string \<Rightarrow> string option \<Rightarrow> error + bool" where
  "bcrypt_compare cmp data hash =
     (case hash of None \<Rightarrow> Inl BcryptArgumentError | Some h \<Rightarrow> Inr (cmp data h))"

definition info :: "'o account \<Rightarrow> 'o user_info" where
  "info u =
     \<lparr>info_id = acc_id u, info_username = acc_username u, info_email = acc_email u,
      info_bio = acc_bio u, info_profile = acc_profile u\<rparr>"

text \<open>
  \<^verbatim>\<open>LoginController\<close>. \<open>sign\<close> is \<^verbatim>\<open>createToken\<close> (\<open>None\<close> when \<^verbatim>\<open>jwt.sign\<close> throws);
  a body field that is missing or the empty string is falsy.
\<close>

definition LoginController ::
  "setters \<Rightarrow> (string \<Rightarrow> string \<Rightarrow> bool) \<Rightarrow> ('o \<Rightarrow> string option) \<Rightarrow> bool \<Rightarrow> 'o account list
     \<Rightarrow> login_body \<Rightarrow> 'o auth_response" where
  "LoginController st cmp sign fails coll body =
     (case (body_identifier body, body_password body) of
        (Some ident, Some pw) \<Rightarrow>
          if ident = [] \<or> pw = []
          then Message 400 ''Email/Username and password required''
          else
            (case findOne fails coll
                    (\<lambda>u. acc_email u = castEmail st ident \<or> acc_username u = castUsername st ident) of
               Inl e \<Rightarrow> Message 500 ''Login failed''
             | Inr None \<Rightarrow> Message 401 ''Invalid credentials''
             | Inr (Some user) \<Rightarrow>
               (case bcrypt_compare cmp pw (acc_password user) of
                  Inl e \<Rightarrow> Message 500 ''Login failed''
                | Inr isMatch \<Rightarrow>
                    if \<not> isMatch then Message 401 ''Invalid credentials''
                    else
                      (case sign (acc_id user) of
                         None \<Rightarrow> Message 500 ''Login failed''
                       | Some token \<Rightarrow>
                           Authenticated 200 ''Login successful'' token (info user))))
      | _ \<Rightarrow> Message 400 ''Email/Username and password required'')"

text \<open>The \<^verbatim>\<open>pre("save")\<close> hook: a modified password is replaced by its hash under a
  fresh salt.\<close>

definition preSave :: "(string \<Rightarrow> string \<Rightarrow> string) \<Rightarrow> string \<Rightarrow> bool \<Rightarrow> 'o account \<Rightarrow> 'o account" where
  "preSave bhash salt isModified doc =
     (if \<not> isModified then doc
      else doc\<lparr>acc_password := map_option (bhash salt) (acc_password doc)\<rparr>)"

text \<open>The setters on the paths of a new document; the password path has none.\<close>

definition applySetters :: "setters \<Rightarrow> 'o account \<Rightarrow> 'o account" where
  "applySetters st doc =
     doc\<lparr>acc_username := castUsername st (acc_username doc),
         acc_email := castEmail st (acc_email doc)\<rparr>"

text \<open>
  \<^verbatim>\<open>User.create(doc)\<close>: the setters, schema validation (the parameter \<open>schemaValid\<close>:
  the validators of the paths), the save hook on the new document, every path of which is
  modified, then the insert.
\<close>

definition User_create ::
  "setters \<Rightarrow> (string \<Rightarrow> string \<Rightarrow> string) \<Rightarrow> ('o account \<Rightarrow> bool) \<Rightarrow> string \<Rightarrow> bool
     \<Rightarrow> 'o account list \<Rightarrow> 'o account \<Rightarrow> error + 'o account \<times> 'o account list" where
  "User_create st bhash schemaValid salt fails coll doc =
     (let cast = applySetters st doc in
      if \<not> schemaValid cast then Inl (ValidationError ''User validation failed'')
      else
        let doc' = preSave bhash salt True cast in
        if fails then Inl StoreError else Inr (doc', coll @ [doc']))"

text \<open>
  \<^verbatim>\<open>RegisterController\<close>. \<open>salt12\<close> is the salt \<^verbatim>\<open>bcrypt.hash(password, 12)\<close> draws,
  \<open>salt10\<close> the one \<^verbatim>\<open>bcrypt.genSalt(10)\<close> returns in the hook, \<open>newId\<close> the \<^verbatim>\<open>_id\<close>
  of the new document; the profile image of the request is trimmed by the setter of the
  profile schema. The result is the response and the collection afterwards.
\<close>

definition RegisterController ::
  "setters \<Rightarrow> (string \<Rightarrow> string \<Rightarrow> string) \<Rightarrow> ('o \<Rightarrow> string option) \<Rightarrow> ('o account \<Rightarrow> bool)
     \<Rightarrow> string \<Rightarrow> string \<Rightarrow> 'o \<Rightarrow> bool \<Rightarrow> bool \<Rightarrow> 'o account list \<Rightarrow> register_body
     \<Rightarrow> 'o auth_response \<times> 'o account list" where
  "RegisterController st bhash sign schemaValid salt12 salt10 newId findFails createFails coll
       body =
     (case (reg_username body, reg_email body, reg_password body) of
        (Some uname, Some mail, Some pw) \<Rightarrow>
          if uname = [] \<or> mail = [] \<or> pw = []
          then (Message 400 ''Username, email and password are required'', coll)
          else
            (case findOne findFails coll
                    (\<lambda>u. acc_email u = castEmail st mail \<or> acc_username u = castUsername st uname) of
               Inl e \<Rightarrow> (Message 500 ''Registration failed'', coll)
             | Inr (Some existingUser) \<Rightarrow>
                 (Message 409
                    (if acc_email existingUser = mail then ''Email already registered''
                     else ''Username already taken''), coll)
             | Inr None \<Rightarrow>
                 let hashedPassword = bhash salt12 pw;
                     doc = \<lparr>acc_id = newId, acc_username = uname, acc_email = mail,
                            acc_password = Some hashedPassword,
                            acc_bio = (case reg_bio body of None \<Rightarrow> [] | Some b \<Rightarrow> b),
                            acc_profile =
                              (case reg_imageUrl body of
                                 None \<Rightarrow> \<lparr>imageUrl = default_imageUrl\<rparr>
                               | Some url \<Rightarrow>
                                   \<lparr>imageUrl =
                                      (if url = [] then default_imageUrl else trim st url)\<rparr>)\<rparr>
                 in
                 (case User_create st bhash schemaValid salt10 createFails coll doc of
                    Inl e \<Rightarrow> (Message 500 ''Registration failed'', coll)
                  | Inr (newUser, coll') \<Rightarrow>
                    (case sign (acc_id newUser) of
                       None \<Rightarrow> (Message 500 ''Registration failed'', coll')
                     | Some token \<Rightarrow>
                         (Authenticated 201 ''User registered successfully'' token
                            (info newUser), coll'))))
      | _ \<Rightarrow> (Message 400 ''Username, email and password are required'', coll))"

section \<open>Properties of the data and of the libraries\<close>

text \<open>The law of the ObjectId library: an id printed and parsed again is the same id.\<close>

definition lawful :: "(string \<Rightarrow> 'o option) \<Rightarrow> ('o \<Rightarrow> string) \<Rightarrow> bool" where
  "lawful parse hex = (\<forall>i. parse (hex i) = Some i)"

text \<open>The invariants of section 3 of the specification on the embedded arrays: the
  entries of each array are unique, and the two sides of an edge between users of the
  store are in lockstep.\<close>

definition unique_entries :: "'o store \<Rightarrow> bool" where
  "unique_entries db =
     (\<forall>i u. db i = Some u \<longrightarrow> distinct (followers u) \<and> distinct (following u))"

definition lockstep :: "'o store \<Rightarrow> bool" where
  "lockstep db =
     (\<forall>a b ua ub. db a = Some ua \<longrightarrow> db b = Some ub \<longrightarrow>
        (b \<in> set (following ua)) = (a \<in> set (followers ub)))"



text \<open>The summaries a listing response carries.\<close>

fun listed :: "'o response \<Rightarrow> 'o summary list" where
  "listed (Listing _ _ fs _) = fs"
| "listed _ = []"

text \<open>The idealised bcrypt: a comparison succeeds on the hash of the very data only.\<close>

definition ideal_bcrypt :: "(string \<Rightarrow> string \<Rightarrow> string) \<Rightarrow> (string \<Rightarrow> string \<Rightarrow> bool) \<Rightarrow> bool" where
  "ideal_bcrypt bhash cmp = (\<forall>salt d d'. cmp d (bhash salt d') = (d = d'))"

section \<open>Sample data\<close>



definition person :: "string \<Rightarrow> 'o list \<Rightarrow> 'o list \<Rightarrow> 'o user" where
  "person name frs fng =
     \<lparr>username = name, email = name @ ''@example.org'', password = ''$2b$'' @ name,
      profile = \<lparr>imageUrl = []\<rparr>, followers = frs, following = fng\<rparr>"



text \<open>
  An instance of the ObjectId interface with more than one spelling per id, as the
  hexadecimal strings of the driver have: an id is a list of hexadecimal digits, it is
  printed in lower case, and a string parses in either case.
\<close>

datatype nibble = N0 | N1 | N2 | N3 | N4 | N5 | N6 | N7 | N8 | N9 | NA | NB | NC | ND | NE | NF

fun nibble_char :: "nibble \<Rightarrow> char" where
  "nibble_char N0 = CHR ''0''" | "nibble_char N1 = CHR ''1''" | "nibble_char N2 = CHR ''2''"
| "nibble_char N3 = CHR ''3''" | "nibble_char N4 = CHR ''4''" | "nibble_char N5 = CHR ''5''"
| "nibble_char N6 = CHR ''6''" | "nibble_char N7 = CHR ''7''" | "nibble_char N8 = CHR ''8''"
| "nibble_char N9 = CHR ''9''" | "nibble_char NA = CHR ''a''" | "nibble_char NB = CHR ''b''"
| "nibble_char NC = CHR ''c''" | "nibble_char ND = CHR ''d''" | "nibble_char NE = CHR ''e''"
| "nibble_char NF = CHR ''f''"

definition char_nibble :: "char \<Rightarrow> nibble option" where
  "char_nibble c =
     map_of [(CHR ''0'', N0), (CHR ''1'', N1), (CHR ''2'', N2), (CHR ''3'', N3), (CHR ''4'', N4),
             (CHR ''5'', N5), (CHR ''6'', N6), (CHR ''7'', N7), (CHR ''8'', N8), (CHR ''9'', N9),
             (CHR ''a'', NA), (CHR ''b'', NB), (CHR ''c'', NC), (CHR ''d'', ND), (CHR ''e'', NE),
             (CHR ''f'', NF), (CHR ''A'', NA), (CHR ''B'', NB), (CHR ''C'', NC), (CHR ''D'', ND),
             (CHR ''E'', NE), (CHR ''F'', NF)] c"

definition oid_hex :: "nibble list \<Rightarrow> string" where
  "oid_hex i = map nibble_char i"

definition oid_parse :: "string \<Rightarrow> nibble list option" where
  "oid_parse s = those (map char_nibble s)"

text \<open>Alice and bob with such ids, printed \<open>a1\<close> and \<open>b2\<close>: before alice follows
  bob, and after.\<close>

definition alice_id :: "nibble list" where
  "alice_id = [NA, N1]"

definition bob_id :: "nibble list" where
  "bob_id = [NB, N2]"


definition joined :: "nibble list store" where
  "joined = [alice_id \<mapsto> person ''alice'' [] [bob_id],
             bob_id \<mapsto> person ''bob'' [alice_id] []]"

text \<open>An instance of bcrypt for evaluation: the hash is the data behind a mark.\<close>

definition toy_hash :: "string \<Rightarrow> string \<Rightarrow> string" where
  "toy_hash salt d = CHR ''$'' # d"

definition toy_cmp :: "string \<Rightarrow> string \<Rightarrow> bool" where
  "toy_cmp d h = (h = CHR ''$'' # d)"


text \<open>An instance of the two string functions, on ASCII.\<close>

definition ascii_lower :: "string \<Rightarrow> string" where
  "ascii_lower s =
     map (\<lambda>c. case map_of (zip ''ABCDEFGHIJKLMNOPQRSTUVWXYZ'' ''abcdefghijklmnopqrstuvwxyz'') c of
                None \<Rightarrow> c | Some l \<Rightarrow> l) s"

definition blank :: "char \<Rightarrow> bool" where
  "blank c = (c \<in> set [CHR '' '', CHR 0x09, CHR 0x0A, CHR 0x0D])"

definition strip :: "string \<Rightarrow> string" where
  "strip s = rev (dropWhile blank (rev (dropWhile blank s)))"

definition ascii :: setters where
  "ascii = \<lparr>toLowerCase = ascii_lower, trim = strip\<rparr>"

definition newcomer :: register_body where
  "newcomer = \<lparr>reg_username = Some ''carol'', reg_email = Some ''carol@example.org'',
               reg_password = Some ''secret1'', reg_bio = None, reg_imageUrl = None\<rparr>"

section \<open>Basic facts\<close>

lemma lawful_parse: "lawful parse hex \<Longrightarrow> parse (hex i) = Some i"
  by (simp add: lawful_def)

lemma lawful_hex_eq: "lawful parse hex \<Longrightarrow> (hex i = hex j) = (i = j)"
  by (metis lawful_def option.inject)

lemma includes_hex: "lawful parse hex \<Longrightarrow> array_includes hex xs (hex b) = (b \<in> set xs)"
  by (auto simp: array_includes_def lawful_hex_eq)


lemma char_nibble_char: "char_nibble (nibble_char n) = Some n"
  by (cases n) (simp_all add: char_nibble_def)

lemma lawful_oid: "lawful oid_parse oid_hex"
proof -
  have "those (map char_nibble (map nibble_char i)) = Some i" for i
    by (induction i) (simp_all add: char_nibble_char)
  then show ?thesis
    by (simp add: lawful_def oid_parse_def oid_hex_def)
qed


text \<open>The store \<open>joined\<close> satisfies the invariants of the data model.\<close>

lemma joined_invariants: "unique_entries joined" "lockstep joined"
  by (auto simp: unique_entries_def lockstep_def joined_def person_def alice_id_def bob_id_def
      split: if_splits)

lemmas session_defs = startSession_def startTransaction_def view_def findById_def save_def
  apply_write_def set_path_def commitTransaction_def abortTransaction_def endSession_def
  catch_def catchCommit_def isValidObjectId_def

text \<open>The runs of the two mutations in which the store answers every call, on users
  that exist.\<close>

lemma followUser_fresh:
  assumes "lawful parse hex" "a \<noteq> b" "db a = Some ua" "db b = Some ub"
    and "b \<notin> set (following ua)"
  shows "followUser parse hex NoFault db (hex a) (hex b) =
     (Json 200 True ''User followed successfully'',
      \<lparr>visible = db(a \<mapsto> ua\<lparr>following := following ua @ [b]\<rparr>,
                     b \<mapsto> ub\<lparr>followers := followers ub @ [a]\<rparr>),
       txn = None,
       trace = [StartSession, StartTransaction, Write, Write, CommitTransaction, EndSession]\<rparr>)"
  using assms
  by (simp add: followUser_def session_defs lawful_parse lawful_hex_eq includes_hex Let_def)

lemma followUser_already:
  assumes "lawful parse hex" "a \<noteq> b" "db a = Some ua" "db b = Some ub"
    and "b \<in> set (following ua)"
  shows "followUser parse hex NoFault db (hex a) (hex b) =
      (Json 409 False ''Already following this user'',
       \<lparr>visible = db, txn = Some db, trace = [StartSession, StartTransaction]\<rparr>)"
  using assms
  by (simp add: followUser_def session_defs lawful_parse lawful_hex_eq includes_hex Let_def)

lemma unfollowUser_distinct:
  assumes "lawful parse hex" "a \<noteq> b" "db a = Some ua" "db b = Some ub"
  shows "unfollowUser parse hex NoFault db (hex a) (hex b) =
     (Json 200 True ''User unfollowed successfully'',
      \<lparr>visible = db(a \<mapsto> ua\<lparr>following := filter (\<lambda>i. i \<noteq> b) (following ua)\<rparr>,
                     b \<mapsto> ub\<lparr>followers := filter (\<lambda>i. i \<noteq> a) (followers ub)\<rparr>),
       txn = None,
       trace = [StartSession, StartTransaction, Write, Write, CommitTransaction, EndSession]\<rparr>)"
  using assms
  by (simp add: unfollowUser_def session_defs lawful_parse lawful_hex_eq Let_def)

lemma count_list_distinct:
  "distinct xs \<Longrightarrow> count_list xs x = (if x \<in> set xs then 1 else 0)"
  by (induction xs) auto

lemma filter_eq_distinct: "distinct xs \<Longrightarrow> x \<in> set xs \<Longrightarrow> filter (\<lambda>d. d = x) xs = [x]"
  by (induction xs) (auto simp: filter_empty_conv)

text \<open>What either mutation can leave behind, whatever the store does.\<close>

lemma followUser_outcomes:
  assumes "lawful parse hex"
  shows "visible (snd (followUser parse hex flt db (hex a) (hex b))) = db
       \<or> (\<exists>ua ub. a \<noteq> b \<and> db a = Some ua \<and> db b = Some ub \<and> b \<notin> set (following ua)
             \<and> visible (snd (followUser parse hex flt db (hex a) (hex b)))
                 = db(a \<mapsto> ua\<lparr>following := following ua @ [b]\<rparr>,
                      b \<mapsto> ub\<lparr>followers := followers ub @ [a]\<rparr>))"
  using assms
  by (auto simp: followUser_def session_defs Let_def lawful_parse lawful_hex_eq includes_hex
      split: option.splits sum.splits prod.splits if_splits)

lemma unfollowUser_outcomes:
  assumes "lawful parse hex"
  shows "visible (snd (unfollowUser parse hex flt db (hex a) (hex b))) = db
       \<or> (\<exists>ua ub. db a = Some ua \<and> db b = Some ub
             \<and> visible (snd (unfollowUser parse hex flt db (hex a) (hex b)))
                 = (if a = b
                    then db(a \<mapsto> ua\<lparr>following := filter (\<lambda>i. i \<noteq> b) (following ua),
                                     followers := filter (\<lambda>i. i \<noteq> a) (followers ua)\<rparr>)
                    else db(a \<mapsto> ua\<lparr>following := filter (\<lambda>i. i \<noteq> b) (following ua)\<rparr>,
                            b \<mapsto> ub\<lparr>followers := filter (\<lambda>i. i \<noteq> a) (followers ub)\<rparr>)))"
  using assms
  by (auto simp: unfollowUser_def session_defs Let_def lawful_parse lawful_hex_eq
      split: option.splits sum.splits prod.splits if_splits)


section \<open>Self-follow\<close>


text \<open>
  What holds of the self-follow test: with the same well-formed string as caller and as
  target, and a session that opens, \<^verbatim>\<open>followUser\<close> answers 400 ``You cannot follow
  yourself''; whatever the store does, the data is left as it was. In the normalised
  variant the \<^verbatim>\<open>pre("validate")\<close> hook rejects a Follow document whose follower is
  its following, and the static \<^verbatim>\<open>followUser\<close> inserts nothing for it.
\<close>

lemma self_follow_rejected:
  "(isValidObjectId parse myId \<and> flt \<noteq> AtStartSession \<longrightarrow>
      followUser parse hex flt db myId myId =
        (Json 400 False ''You cannot follow yourself'',
         \<lparr>visible = db, txn = Some db, trace = [StartSession, StartTransaction]\<rparr>))
   \<and> visible (snd (followUser parse hex flt db myId myId)) = db
   \<and> preValidate \<lparr>follow_follower = Some a, follow_following = Some a\<rparr>
        = Inl (HookError ''User cannot follow themselves'')
   \<and> Follow_followUser coll (Some a) (Some a)
        = (Inl (HookError ''User cannot follow themselves''), coll)"
  by (simp add: followUser_def session_defs Let_def preValidate_def Follow_followUser_def
      create_def)

section \<open>Following twice\<close>

lemma edge_rows_eq:
  "edge_rows coll a b
     = filter (\<lambda>d. d = \<lparr>follow_follower = Some a, follow_following = Some b\<rparr>) coll"
  unfolding edge_rows_def by (rule filter_cong) auto

lemma Follow_followUser_new:
  assumes "a \<noteq> b" and "\<lparr>follow_follower = Some a, follow_following = Some b\<rparr> \<notin> set coll"
  shows "Follow_followUser coll (Some a) (Some b) =
     (Inr \<lparr>follow_follower = Some a, follow_following = Some b\<rparr>,
      coll @ [\<lparr>follow_follower = Some a, follow_following = Some b\<rparr>])"
proof -
  have "\<not> (\<exists>d' \<in> set coll. follow_follower d' = Some a \<and> follow_following d' = Some b)"
  proof
    assume "\<exists>d' \<in> set coll. follow_follower d' = Some a \<and> follow_following d' = Some b"
    then obtain d' where "d' \<in> set coll" "follow_follower d' = Some a"
      "follow_following d' = Some b" by blast
    moreover from this have "d' = \<lparr>follow_follower = Some a, follow_following = Some b\<rparr>"
      by (intro follow.equality) simp_all
    ultimately show False using assms(2) by simp
  qed
  with assms(1) show ?thesis
    by (simp add: Follow_followUser_def create_def preValidate_def validateRequired_def)
qed

lemma Follow_followUser_dup:
  assumes "a \<noteq> b" and "\<lparr>follow_follower = Some a, follow_following = Some b\<rparr> \<in> set coll"
  shows "Follow_followUser coll (Some a) (Some b) = (Inl DuplicateKey, coll)"
  using assms
  by (force simp: Follow_followUser_def create_def preValidate_def validateRequired_def)


text \<open>
  What holds with both ids in the spelling \<^verbatim>\<open>toString()\<close> prints. Let \<open>a\<close> and \<open>b\<close>
  be distinct users of the store, and let the store answer every call. Of two calls
  \<^verbatim>\<open>followUser(a, b)\<close> in sequence the second answers 409 ``Already following this
  user'' and leaves the data as the first left it; and when the store satisfied the
  invariants of the data model before, then afterwards \<open>b\<close> occurs exactly once in the
  \<^verbatim>\<open>following\<close> of \<open>a\<close> and \<open>a\<close> exactly once in the \<^verbatim>\<open>followers\<close> of \<open>b\<close>. In
  the normalised variant the second \<^verbatim>\<open>Follow.followUser(a, b)\<close> fails with the
  duplicate-key error and inserts nothing, and a collection that satisfied its unique
  index before holds exactly one row for the edge.
\<close>

lemma follow_twice_one_edge:
  assumes "lawful parse hex" and "a \<noteq> b" and "db a = Some ua" and "db b = Some ub"
  shows "(let (r1, \<sigma>1) = followUser parse hex NoFault db (hex a) (hex b);
              (r2, \<sigma>2) = followUser parse hex NoFault (visible \<sigma>1) (hex a) (hex b)
          in r2 = Json 409 False ''Already following this user''
             \<and> status r2 = Some 409
             \<and> visible \<sigma>2 = visible \<sigma>1
             \<and> (unique_entries db \<and> lockstep db \<longrightarrow>
                  (\<exists>ua' ub'. visible \<sigma>2 a = Some ua' \<and> visible \<sigma>2 b = Some ub'
                     \<and> count_list (following ua') b = 1
                     \<and> count_list (followers ub') a = 1)))
       \<and> (let (r1, c1) = Follow_followUser coll (Some a) (Some b);
               (r2, c2) = Follow_followUser c1 (Some a) (Some b)
           in r2 = Inl DuplicateKey \<and> c2 = c1
              \<and> (distinct coll \<longrightarrow> length (edge_rows c2 a b) = 1))"
proof -
  have embedded: "(let (r1, \<sigma>1) = followUser parse hex NoFault db (hex a) (hex b);
              (r2, \<sigma>2) = followUser parse hex NoFault (visible \<sigma>1) (hex a) (hex b)
          in r2 = Json 409 False ''Already following this user''
             \<and> status r2 = Some 409
             \<and> visible \<sigma>2 = visible \<sigma>1
             \<and> (unique_entries db \<and> lockstep db \<longrightarrow>
                  (\<exists>ua' ub'. visible \<sigma>2 a = Some ua' \<and> visible \<sigma>2 b = Some ub'
                     \<and> count_list (following ua') b = 1
                     \<and> count_list (followers ub') a = 1)))"
  proof (cases "b \<in> set (following ua)")
    case True
    have "count_list (following ua) b = 1 \<and> count_list (followers ub) a = 1"
      if "unique_entries db" "lockstep db"
    proof -
      have "distinct (following ua)" "distinct (followers ub)"
        using that(1) assms(3,4) by (auto simp: unique_entries_def)
      moreover have "a \<in> set (followers ub)"
        using that(2) assms(3,4) True by (auto simp: lockstep_def)
      ultimately show ?thesis
        using True by (simp add: count_list_distinct)
    qed
    with True assms show ?thesis
      by (auto simp: followUser_already)
  next
    case False
    let ?db' = "db(a \<mapsto> ua\<lparr>following := following ua @ [b]\<rparr>,
                     b \<mapsto> ub\<lparr>followers := followers ub @ [a]\<rparr>)"
    have second: "followUser parse hex NoFault ?db' (hex a) (hex b) =
        (Json 409 False ''Already following this user'',
         \<lparr>visible = ?db', txn = Some ?db', trace = [StartSession, StartTransaction]\<rparr>)"
      using assms(1,2) by (intro followUser_already) auto
    have "a \<notin> set (followers ub)" if "lockstep db"
      using that assms(3,4) False by (auto simp: lockstep_def)
    then show ?thesis
      using False assms(2) second
      by (auto simp: followUser_fresh [OF assms False])
  qed
  let ?row = "\<lparr>follow_follower = Some a, follow_following = Some b\<rparr>"
  have normalised: "(let (r1, c1) = Follow_followUser coll (Some a) (Some b);
               (r2, c2) = Follow_followUser c1 (Some a) (Some b)
           in r2 = Inl DuplicateKey \<and> c2 = c1
              \<and> (distinct coll \<longrightarrow> length (edge_rows c2 a b) = 1))"
  proof (cases "?row \<in> set coll")
    case True
    with assms(2) show ?thesis
      by (simp add: Follow_followUser_dup edge_rows_eq filter_eq_distinct)
  next
    case False
    have "?row \<in> set (coll @ [?row])" by simp
    moreover have "filter (\<lambda>d. d = ?row) coll = []"
      using False by (auto simp: filter_empty_conv)
    ultimately show ?thesis using False assms(2)
      by (simp add: Follow_followUser_new Follow_followUser_dup edge_rows_eq del: set_append)
  qed
  from embedded normalised show ?thesis by blast
qed

section \<open>Atomicity of a follow\<close>



section \<open>Validation and the transaction\<close>




section \<open>Unfollowing\<close>




text \<open>
  What holds with both ids in the spelling \<^verbatim>\<open>toString()\<close> prints: whenever
  \<^verbatim>\<open>unfollowUser(a, b)\<close> answers 200, both users are in the store, \<open>b\<close> does not
  occur in the \<^verbatim>\<open>following\<close> of \<open>a\<close> and \<open>a\<close> does not occur in the
  \<^verbatim>\<open>followers\<close> of \<open>b\<close>, however often either occurred before.
\<close>

lemma unfollow_removes_every_occurrence:
  assumes "lawful parse hex"
    and "status (fst (unfollowUser parse hex flt db (hex a) (hex b))) = Some 200"
  shows "\<exists>ua' ub'. visible (snd (unfollowUser parse hex flt db (hex a) (hex b))) a = Some ua'
           \<and> visible (snd (unfollowUser parse hex flt db (hex a) (hex b))) b = Some ub'
           \<and> b \<notin> set (following ua') \<and> a \<notin> set (followers ub')
           \<and> count_list (following ua') b = 0 \<and> count_list (followers ub') a = 0"
  using assms
  by (auto simp: unfollowUser_def session_defs Let_def lawful_parse lawful_hex_eq
      split: option.splits sum.splits prod.splits if_splits)

section \<open>Listings\<close>

lemma populate_Nil [simp]: "populate db [] = []"
  by (simp add: populate_def)

lemma populate_Cons:
  "populate db (i # ids) =
     (case db i of None \<Rightarrow> populate db ids | Some u \<Rightarrow> summarise i u # populate db ids)"
  by (simp add: populate_def split: option.splits)

lemma set_populate:
  "set (populate db ids) = {summarise i u |i u. i \<in> set ids \<and> db i = Some u}"
  by (induction ids) (auto simp: populate_Cons split: option.splits)

lemma populate_cong:
  "(\<And>i. i \<in> set ids \<Longrightarrow> map_option (summarise i) (db' i) = map_option (summarise i) (db i))
   \<Longrightarrow> populate db' ids = populate db ids"
proof (induction ids)
  case Nil
  then show ?case by simp
next
  case (Cons i ids)
  have "map_option (summarise i) (db' i) = map_option (summarise i) (db i)"
    using Cons.prems by simp
  moreover have "populate db' ids = populate db ids"
    using Cons by simp
  ultimately show ?case
    by (cases "db i"; cases "db' i") (simp_all add: populate_Cons)
qed

lemma sum_id_summarise [simp]: "sum_id (summarise i u) = i"
  by (simp add: summarise_def)

lemma populate_count:
  "db a = Some u \<Longrightarrow> length (filter (\<lambda>s. sum_id s = a) (populate db ids)) = count_list ids a"
  by (induction ids) (auto simp: populate_Cons split: option.splits)

lemma getFollowers_found:
  "lawful parse hex \<Longrightarrow> db b = Some ub \<Longrightarrow>
   getFollowers parse False db (hex b)
     = Listing 200 True (populate db (followers ub)) (length (populate db (followers ub)))"
  by (simp add: getFollowers_def isValidObjectId_def findById_def lawful_parse Let_def)




text \<open>
  What holds with both ids in the spelling \<^verbatim>\<open>toString()\<close> prints. Let there be an
  edge from \<open>a\<close> to \<open>b\<close>, two distinct users: \<open>b\<close> is in the \<^verbatim>\<open>following\<close> of \<open>a\<close>
  and \<open>a\<close> in the \<^verbatim>\<open>followers\<close> of \<open>b\<close>. When the store answers every call,
  \<^verbatim>\<open>unfollowUser(a, b)\<close> and then \<^verbatim>\<open>followUser(a, b)\<close> both answer 200 and leave
  exactly one occurrence of \<open>b\<close> in the \<^verbatim>\<open>following\<close> of \<open>a\<close> and of \<open>a\<close> in the
  \<^verbatim>\<open>followers\<close> of \<open>b\<close>; \<^verbatim>\<open>getFollowers(b)\<close> lists the same set of summaries
  after the two calls as before them, and the summary of \<open>a\<close> exactly once.
\<close>

lemma unfollow_then_follow_again:
  assumes "lawful parse hex" and "a \<noteq> b" and "db a = Some ua" and "db b = Some ub"
    and "b \<in> set (following ua)" and "a \<in> set (followers ub)"
  shows "let (r1, \<sigma>1) = unfollowUser parse hex NoFault db (hex a) (hex b);
             (r2, \<sigma>2) = followUser parse hex NoFault (visible \<sigma>1) (hex a) (hex b);
             before = getFollowers parse False db (hex b);
             after = getFollowers parse False (visible \<sigma>2) (hex b)
         in status r1 = Some 200 \<and> status r2 = Some 200
            \<and> (\<exists>ua' ub'. visible \<sigma>2 a = Some ua' \<and> visible \<sigma>2 b = Some ub'
                  \<and> count_list (following ua') b = 1 \<and> count_list (followers ub') a = 1)
            \<and> status before = Some 200 \<and> status after = Some 200
            \<and> set (listed after) = set (listed before)
            \<and> length (filter (\<lambda>s. sum_id s = a) (listed after)) = 1"
proof -
  let ?fng = "filter (\<lambda>i. i \<noteq> b) (following ua)"
  let ?frs = "filter (\<lambda>i. i \<noteq> a) (followers ub)"
  let ?db1 = "db(a \<mapsto> ua\<lparr>following := ?fng\<rparr>, b \<mapsto> ub\<lparr>followers := ?frs\<rparr>)"
  let ?db2 = "db(a \<mapsto> ua\<lparr>following := ?fng @ [b]\<rparr>, b \<mapsto> ub\<lparr>followers := ?frs @ [a]\<rparr>)"
  have un: "unfollowUser parse hex NoFault db (hex a) (hex b) =
     (Json 200 True ''User unfollowed successfully'',
      \<lparr>visible = ?db1, txn = None,
       trace = [StartSession, StartTransaction, Write, Write, CommitTransaction, EndSession]\<rparr>)"
    by (rule unfollowUser_distinct [OF assms(1-4)])
  have fo: "followUser parse hex NoFault ?db1 (hex a) (hex b) =
     (Json 200 True ''User followed successfully'',
      \<lparr>visible = ?db2, txn = None,
       trace = [StartSession, StartTransaction, Write, Write, CommitTransaction, EndSession]\<rparr>)"
    using followUser_fresh [OF assms(1,2), of ?db1 "ua\<lparr>following := ?fng\<rparr>"
        "ub\<lparr>followers := ?frs\<rparr>"] assms(2)
    by (simp add: fun_upd_twist)
  have before: "getFollowers parse False db (hex b)
     = Listing 200 True (populate db (followers ub)) (length (populate db (followers ub)))"
    using assms(1,4) by (simp add: getFollowers_found)
  have after: "getFollowers parse False ?db2 (hex b)
     = Listing 200 True (populate ?db2 (?frs @ [a])) (length (populate ?db2 (?frs @ [a])))"
    using assms(1) by (simp add: getFollowers_found)
  have same: "populate ?db2 ids = populate db ids" for ids
    using assms(3,4) by (intro populate_cong) (auto simp: summarise_def)
  have members: "set (populate db (?frs @ [a])) = set (populate db (followers ub))"
    using assms(6) by (auto simp: set_populate)
  have once: "length (filter (\<lambda>s. sum_id s = a) (populate db (?frs @ [a]))) = 1"
    using assms(3) by (simp add: populate_count)
  have counts: "count_list (?fng @ [b]) b = 1" "count_list (?frs @ [a]) a = 1"
    by simp_all
  show ?thesis
    using assms(2) counts members once
    by (simp add: un fo before after same Let_def del: count_list_append)
qed









section \<open>The duplicate check and the invariants\<close>

lemma unique_entries_follow:
  assumes "unique_entries db" and "lockstep db" and "a \<noteq> b"
    and "db a = Some ua" and "db b = Some ub" and "b \<notin> set (following ua)"
  shows "unique_entries (db(a \<mapsto> ua\<lparr>following := following ua @ [b]\<rparr>,
                            b \<mapsto> ub\<lparr>followers := followers ub @ [a]\<rparr>))"
proof -
  have "a \<notin> set (followers ub)"
    using assms(2,4,5,6) by (auto simp: lockstep_def)
  then show ?thesis
    using assms(1,3,4,5,6) by (auto simp: unique_entries_def)
qed

lemma lockstep_follow:
  assumes "lockstep db" and "a \<noteq> b" and "db a = Some ua" and "db b = Some ub"
  shows "lockstep (db(a \<mapsto> ua\<lparr>following := following ua @ [b]\<rparr>,
                      b \<mapsto> ub\<lparr>followers := followers ub @ [a]\<rparr>))"
  using assms unfolding lockstep_def
  by (auto split: if_splits)

lemma unique_entries_unfollow:
  assumes "unique_entries db" and "db a = Some ua" and "db b = Some ub"
  shows "unique_entries
           (if a = b
            then db(a \<mapsto> ua\<lparr>following := filter (\<lambda>i. i \<noteq> b) (following ua),
                             followers := filter (\<lambda>i. i \<noteq> a) (followers ua)\<rparr>)
            else db(a \<mapsto> ua\<lparr>following := filter (\<lambda>i. i \<noteq> b) (following ua)\<rparr>,
                    b \<mapsto> ub\<lparr>followers := filter (\<lambda>i. i \<noteq> a) (followers ub)\<rparr>))"
  using assms by (auto simp: unique_entries_def)

lemma lockstep_unfollow:
  assumes "lockstep db" and "db a = Some ua" and "db b = Some ub"
  shows "lockstep
           (if a = b
            then db(a \<mapsto> ua\<lparr>following := filter (\<lambda>i. i \<noteq> b) (following ua),
                             followers := filter (\<lambda>i. i \<noteq> a) (followers ua)\<rparr>)
            else db(a \<mapsto> ua\<lparr>following := filter (\<lambda>i. i \<noteq> b) (following ua)\<rparr>,
                    b \<mapsto> ub\<lparr>followers := filter (\<lambda>i. i \<noteq> a) (followers ub)\<rparr>))"
  using assms unfolding lockstep_def
  by (auto split: if_splits)

lemma followUser_preserves:
  assumes "lawful parse hex" and "unique_entries db" and "lockstep db"
  shows "unique_entries (visible (snd (followUser parse hex flt db (hex a) (hex b))))"
    and "lockstep (visible (snd (followUser parse hex flt db (hex a) (hex b))))"
  using followUser_outcomes [OF assms(1), of flt db a b] assms(2,3)
  by (auto simp: unique_entries_follow lockstep_follow)

lemma unfollowUser_preserves:
  assumes "lawful parse hex" and "unique_entries db" and "lockstep db"
  shows "unique_entries (visible (snd (unfollowUser parse hex flt db (hex a) (hex b))))"
    and "lockstep (visible (snd (unfollowUser parse hex flt db (hex a) (hex b))))"
proof -
  from unfollowUser_outcomes [OF assms(1), of flt db a b]
  consider "visible (snd (unfollowUser parse hex flt db (hex a) (hex b))) = db"
    | ua ub where "db a = Some ua" "db b = Some ub"
      "visible (snd (unfollowUser parse hex flt db (hex a) (hex b)))
         = (if a = b
            then db(a \<mapsto> ua\<lparr>following := filter (\<lambda>i. i \<noteq> b) (following ua),
                             followers := filter (\<lambda>i. i \<noteq> a) (followers ua)\<rparr>)
            else db(a \<mapsto> ua\<lparr>following := filter (\<lambda>i. i \<noteq> b) (following ua)\<rparr>,
                    b \<mapsto> ub\<lparr>followers := filter (\<lambda>i. i \<noteq> a) (followers ub)\<rparr>))"
    by blast
  then have "unique_entries (visible (snd (unfollowUser parse hex flt db (hex a) (hex b))))
      \<and> lockstep (visible (snd (unfollowUser parse hex flt db (hex a) (hex b))))"
  proof cases
    case 1
    with assms(2,3) show ?thesis by simp
  next
    case 2
    show ?thesis
      unfolding 2(3)
      using unique_entries_unfollow [OF assms(2) 2(1,2)] lockstep_unfollow [OF assms(3) 2(1,2)]
      by simp
  qed
  then show "unique_entries (visible (snd (unfollowUser parse hex flt db (hex a) (hex b))))"
    and "lockstep (visible (snd (unfollowUser parse hex flt db (hex a) (hex b))))"
    by simp_all
qed

lemma followUser_ignores_followers:
  assumes "db t = Some tu" and "parse targetUserId = Some t"
  shows "fst (followUser parse hex flt (db(t \<mapsto> tu\<lparr>followers := fs\<rparr>)) myId targetUserId)
       = fst (followUser parse hex flt db myId targetUserId)"
  using assms
  by (auto simp: followUser_def session_defs Let_def
      split: option.splits sum.splits prod.splits if_splits)


text \<open>
  What holds of the duplicate check. The response of \<^verbatim>\<open>followUser\<close> does not change
  when the target's \<^verbatim>\<open>followers\<close> is replaced by any other array. With both ids in the
  spelling \<^verbatim>\<open>toString()\<close> prints, on a store whose arrays are duplicate-free and in
  lockstep, \<^verbatim>\<open>followUser\<close> and \<^verbatim>\<open>unfollowUser\<close>, whatever the store does, leave the
  arrays duplicate-free and in lockstep. On a store where \<open>a\<close> is among the
  \<^verbatim>\<open>followers\<close> of \<open>b\<close> while \<open>b\<close> is not in the \<^verbatim>\<open>following\<close> of \<open>a\<close>,
  \<^verbatim>\<open>followUser(a, b)\<close> answers 200 and appends one more \<open>a\<close> to the \<^verbatim>\<open>followers\<close>
  of \<open>b\<close>.
\<close>

lemma duplicate_check_reads_following_only:
  "(db t = Some tu \<and> parse targetUserId = Some t \<longrightarrow>
      fst (followUser parse hex flt (db(t \<mapsto> tu\<lparr>followers := fs\<rparr>)) myId targetUserId)
        = fst (followUser parse hex flt db myId targetUserId))
   \<and> (lawful parse hex \<and> unique_entries db \<and> lockstep db \<longrightarrow>
        unique_entries (visible (snd (followUser parse hex flt db (hex a) (hex b))))
        \<and> lockstep (visible (snd (followUser parse hex flt db (hex a) (hex b))))
        \<and> unique_entries (visible (snd (unfollowUser parse hex flt db (hex a) (hex b))))
        \<and> lockstep (visible (snd (unfollowUser parse hex flt db (hex a) (hex b)))))
   \<and> (lawful parse hex \<and> a \<noteq> b \<and> db a = Some ua \<and> db b = Some ub
        \<and> a \<in> set (followers ub) \<and> b \<notin> set (following ua) \<longrightarrow>
        fst (followUser parse hex NoFault db (hex a) (hex b))
          = Json 200 True ''User followed successfully''
        \<and> (\<exists>ub'. visible (snd (followUser parse hex NoFault db (hex a) (hex b))) b = Some ub'
              \<and> followers ub' = followers ub @ [a]
              \<and> count_list (followers ub') a = count_list (followers ub) a + 1
              \<and> \<not> distinct (followers ub')))"
proof -
  have "fst (followUser parse hex NoFault db (hex a) (hex b))
          = Json 200 True ''User followed successfully''
        \<and> (\<exists>ub'. visible (snd (followUser parse hex NoFault db (hex a) (hex b))) b = Some ub'
              \<and> followers ub' = followers ub @ [a]
              \<and> count_list (followers ub') a = count_list (followers ub) a + 1
              \<and> \<not> distinct (followers ub'))"
    if "lawful parse hex" "a \<noteq> b" "db a = Some ua" "db b = Some ub"
      "a \<in> set (followers ub)" "b \<notin> set (following ua)"
    using that by (simp add: followUser_fresh)
  then show ?thesis
    using followUser_ignores_followers [of db t tu parse targetUserId hex flt fs myId]
      followUser_preserves [of parse hex db flt a b]
      unfollowUser_preserves [of parse hex db flt a b]
    by blast
qed

section \<open>Login of class-106\<close>

lemma findOne_deselected:
  "findOne fails coll cond = Inr (Some user) \<Longrightarrow> acc_password user = None"
  by (auto simp: findOne_def deselect_def split: if_splits)

lemma login_status:
  "auth_status (LoginController st cmp sign fails coll body) \<in> {400, 401, 500}"
proof (cases "body_identifier body")
  case None
  then show ?thesis by (simp add: LoginController_def)
next
  case (Some ident)
  note i = this
  show ?thesis
  proof (cases "body_password body")
    case None
    with i show ?thesis by (simp add: LoginController_def)
  next
    case (Some pw)
    show ?thesis
    proof (cases "findOne fails coll
        (\<lambda>u. acc_email u = castEmail st ident \<or> acc_username u = castUsername st ident)")
      case (Inl e)
      with i Some show ?thesis by (simp add: LoginController_def)
    next
      case (Inr found)
      show ?thesis
      proof (cases found)
        case None
        with i Some Inr show ?thesis by (simp add: LoginController_def)
      next
        case (Some user)
        with Inr have "acc_password user = None"
          by (simp add: findOne_deselected)
        with i \<open>body_password body = Some pw\<close> Inr Some show ?thesis
          by (simp add: LoginController_def bcrypt_compare_def)
      qed
    qed
  qed
qed

lemma register_created:
  assumes "auth_status (fst (RegisterController st bhash sign schemaValid salt12 salt10 newId
          findFails createFails coll rbody)) = 201"
  shows "\<exists>pw doc. reg_password rbody = Some pw
           \<and> snd (RegisterController st bhash sign schemaValid salt12 salt10 newId
                 findFails createFails coll rbody) = coll @ [doc]
           \<and> acc_password doc = Some (bhash salt10 (bhash salt12 pw))"
proof -
  obtain uname mail pw where b: "reg_username rbody = Some uname" "reg_email rbody = Some mail"
      "reg_password rbody = Some pw"
    using assms by (auto simp: RegisterController_def split: option.splits)
  have ne: "\<not> (uname = [] \<or> mail = [] \<or> pw = [])"
    using assms b by (auto simp: RegisterController_def)
  have f: "findOne findFails coll
      (\<lambda>u. acc_email u = castEmail st mail \<or> acc_username u = castUsername st uname) = Inr None"
    using assms b ne by (auto simp: RegisterController_def split: sum.splits option.splits)
  show ?thesis
    using assms b ne f
    by (auto simp: RegisterController_def User_create_def preSave_def applySetters_def Let_def
        split: if_splits option.splits)
qed

text \<open>
  Claim C9. \<^verbatim>\<open>LoginController\<close> of class-106 never answers 200, whatever the
  request, the collection and the libraries do: its status is 400, 401 or 500. The
  document \<^verbatim>\<open>findOne\<close> returns has no password, since the schema does not select it, so
  \<^verbatim>\<open>bcrypt.compare\<close> is given no hash and rejects. And whenever
  \<^verbatim>\<open>RegisterController\<close> answers 201, the document it has stored holds the hash of the
  hash of the password, which a bcrypt that matches a hash with its own data only does
  not match with the password (a password is not its own hash).
\<close>

theorem login_never_succeeds:
  "auth_status (LoginController st cmp sign fails coll body) \<noteq> 200
   \<and> auth_status (LoginController st cmp sign fails coll body) \<in> {400, 401, 500}
   \<and> (\<forall>user. findOne fails coll cond = Inr (Some user) \<longrightarrow>
         acc_password user = None
         \<and> bcrypt_compare cmp pw' (acc_password user) = Inl BcryptArgumentError)
   \<and> (auth_status (fst (RegisterController st bhash sign schemaValid salt12 salt10 newId
          findFails createFails coll rbody)) = 201 \<longrightarrow>
        (\<exists>pw doc. reg_password rbody = Some pw
           \<and> snd (RegisterController st bhash sign schemaValid salt12 salt10 newId
                 findFails createFails coll rbody) = coll @ [doc]
           \<and> acc_password doc = Some (bhash salt10 (bhash salt12 pw))
           \<and> (ideal_bcrypt bhash cmp \<and> pw \<noteq> bhash salt12 pw \<longrightarrow>
                \<not> cmp pw (bhash salt10 (bhash salt12 pw)))))"
proof -
  have login: "auth_status (LoginController st cmp sign fails coll body) \<in> {400, 401, 500}"
    by (rule login_status)
  then have never: "auth_status (LoginController st cmp sign fails coll body) \<noteq> 200"
    by auto
  have hidden: "acc_password user = None
         \<and> bcrypt_compare cmp pw' (acc_password user) = Inl BcryptArgumentError"
    if "findOne fails coll cond = Inr (Some user)" for user
    using findOne_deselected [OF that] by (simp add: bcrypt_compare_def)
  have ideal: "\<not> cmp pw (bhash salt10 (bhash salt12 pw))"
    if "ideal_bcrypt bhash cmp" "pw \<noteq> bhash salt12 pw" for pw
    using that by (simp add: ideal_bcrypt_def)
  have register: "\<exists>pw doc. reg_password rbody = Some pw
           \<and> snd (RegisterController st bhash sign schemaValid salt12 salt10 newId
                 findFails createFails coll rbody) = coll @ [doc]
           \<and> acc_password doc = Some (bhash salt10 (bhash salt12 pw))
           \<and> (ideal_bcrypt bhash cmp \<and> pw \<noteq> bhash salt12 pw \<longrightarrow>
                \<not> cmp pw (bhash salt10 (bhash salt12 pw)))"
    if "auth_status (fst (RegisterController st bhash sign schemaValid salt12 salt10 newId
          findFails createFails coll rbody)) = 201"
    using register_created [OF that] ideal by blast
  from login never hidden register show ?thesis by blast
qed

theorem login_never_succeeds_witness:
  "auth_status (fst (RegisterController ascii toy_hash (\<lambda>i. Some i) (\<lambda>d. True) ''s12'' ''s10''
        ''carol'' False False [] newcomer)) = 201
   \<and> map acc_password (snd (RegisterController ascii toy_hash (\<lambda>i. Some i) (\<lambda>d. True) ''s12''
        ''s10'' ''carol'' False False [] newcomer)) = [Some ''$$secret1'']
   \<and> ideal_bcrypt toy_hash toy_cmp
   \<and> \<not> toy_cmp ''secret1'' ''$$secret1''
   \<and> LoginController ascii toy_cmp (\<lambda>i. Some i) False
        (snd (RegisterController ascii toy_hash (\<lambda>i. Some i) (\<lambda>d. True) ''s12'' ''s10''
           ''carol'' False False [] newcomer))
        \<lparr>body_identifier = Some ''Carol@Example.org'', body_password = Some ''secret1''\<rparr>
       = Message 500 ''Login failed''"
proof -
  let ?reg = "RegisterController ascii toy_hash (\<lambda>i. Some i) (\<lambda>d. True) ''s12'' ''s10''
        ''carol'' False False [] newcomer"
  let ?body = "\<lparr>body_identifier = Some ''Carol@Example.org'', body_password = Some ''secret1''\<rparr>"
  note reg_defs = RegisterController_def User_create_def preSave_def applySetters_def
    findOne_def newcomer_def castEmail_def castUsername_def ascii_def ascii_lower_def strip_def
    blank_def Let_def
  have created: "auth_status (fst ?reg) = 201"
    by (simp add: reg_defs)
  have stored: "map acc_password (snd ?reg) = [Some ''$$secret1'']"
    by (simp add: reg_defs toy_hash_def)
  have ideal: "ideal_bcrypt toy_hash toy_cmp"
    by (auto simp: ideal_bcrypt_def toy_hash_def toy_cmp_def)
  have differs: "''secret1'' \<noteq> toy_hash ''s12'' ''secret1''"
    by (simp add: toy_hash_def)
  have answer: "LoginController ascii toy_cmp (\<lambda>i. Some i) False (snd ?reg) ?body
      = Message 500 ''Login failed''"
    by (simp add: reg_defs toy_hash_def LoginController_def deselect_def bcrypt_compare_def)
  from created ideal differs
    login_never_succeeds [of ascii toy_cmp "\<lambda>i. Some i" False "[]" ?body "\<lambda>u. True"
      "''secret1''" toy_hash "\<lambda>d. True" "''s12''" "''s10''" "''carol''" False False newcomer]
  have "\<not> toy_cmp ''secret1'' ''$$secret1''"
    by (auto simp: newcomer_def toy_hash_def)
  with created stored ideal answer show ?thesis
    by simp
qed

end
